theory Spec2Isabelle
  imports Main "HOL-Library.Sublist"
begin

section \<open>Text primitives\<close>

text \<open>
  A Python \<open>str\<close> is modelled as the \<open>string\<close> of its UTF-8 bytes: an ASCII character
  is one \<open>char\<close>, a character outside ASCII is two to four \<open>char\<close>s, all of them above
  \<open>0x7F\<close>.  A substring test on the characters and the same test on the bytes agree.
\<close>

definition lower_char :: "char \<Rightarrow> char" where
  "lower_char c =
     (case map_of (zip ''ABCDEFGHIJKLMNOPQRSTUVWXYZ'' ''abcdefghijklmnopqrstuvwxyz'') c of
        None \<Rightarrow> c
      | Some l \<Rightarrow> l)"

text \<open>
  The two characters outside ASCII whose lower-casing contains an ASCII character:
  U+212A (Kelvin sign), which \<open>str.lower\<close> turns into \<open>k\<close>, and U+0130 (capital I with dot
  above), which it turns into \<open>i\<close> followed by U+0307 (combining dot above).
\<close>

definition kelvin_sign :: string where
  "kelvin_sign = [CHR 0xE2, CHR 0x84, CHR 0xAA]"

definition capital_i_dot :: string where
  "capital_i_dot = [CHR 0xC4, CHR 0xB0]"

definition small_i_dot :: string where
  "small_i_dot = [CHR ''i'', CHR 0xCC, CHR 0x87]"

text \<open>
  \<open>str.lower\<close>.  It maps \<open>A\<close>..\<open>Z\<close> to \<open>a\<close>..\<open>z\<close>, the Kelvin sign to \<open>k\<close> and the dotted
  capital I to \<open>i\<close> with the combining dot, and keeps every other ASCII character.  A
  character outside ASCII other than these two is kept as it is, where \<open>str.lower\<close> gives
  for it one or more characters that are again outside ASCII.  The ASCII characters of the
  result, and the places where something outside ASCII separates them, are therefore those
  of \<open>str.lower\<close>; every keyword and every active ingredient of the program is ASCII, so
  each substring test of the program on a lower-cased text has the outcome it has in Python.
\<close>

fun lower :: "string \<Rightarrow> string" where
  "lower (c1 # c2 # c3 # cs) =
     (if [c1, c2, c3] = kelvin_sign then CHR ''k'' # lower cs
      else if [c1, c2] = capital_i_dot then small_i_dot @ lower (c3 # cs)
      else lower_char c1 # lower (c2 # c3 # cs))"
| "lower [c1, c2] =
     (if [c1, c2] = capital_i_dot then small_i_dot else lower_char c1 # lower [c2])"
| "lower [c1] = [lower_char c1]"
| "lower [] = []"

declare lower.simps [simp del]

text \<open>Python's substring test \<open>w in s\<close>.\<close>

fun str_in :: "string \<Rightarrow> string \<Rightarrow> bool" where
  "str_in w [] = (w = [])"
| "str_in w (c # cs) = (prefix w (c # cs) \<or> str_in w cs)"

text \<open>\<open>any(w in dl for w in ws)\<close>.\<close>

fun any_in :: "string list \<Rightarrow> string \<Rightarrow> bool" where
  "any_in [] dl = False"
| "any_in (w # ws) dl = (str_in w dl \<or> any_in ws dl)"

section \<open>The catalog\<close>

record entry =
  active :: string
  title :: string
  link :: string
  snippet :: string

text \<open>
  A catalog is a dictionary from category name to a list of entries; the association list
  keeps the insertion order that \<open>CATALOG.values()\<close> iterates in.
\<close>

type_synonym catalog = "(string \<times> entry list) list"

definition em_dash :: string where
  "em_dash = [CHR 0xE2, CHR 0x80, CHR 0x94]"

definition CATALOG :: catalog where
  "CATALOG =
    [(''bacterial'',
      [\<lparr>active = ''copper'',
        title = ''Copper Fungicide (Bonide / Southern Ag) '' @ em_dash @ '' search'',
        link = ''https://www.amazon.com/s?k=Copper+Fungicide+Bonide+Southern+Ag'',
        snippet = ''Copper (fixed copper, copper soap) for bacterial leaf spots and cankers.''\<rparr>]),
     (''fungal'',
      [\<lparr>active = ''chlorothalonil'',
        title = ''Daconil (chlorothalonil) '' @ em_dash @ '' search'',
        link = ''https://www.amazon.com/s?k=Daconil+chlorothalonil+fungicide'',
        snippet = ''Broad-spectrum protectant for many leaf blights and fruit rots.''\<rparr>,
       \<lparr>active = ''mancozeb'',
        title = ''Mancozeb (with zinc) '' @ em_dash @ '' search'',
        link = ''https://www.amazon.com/s?k=mancozeb+fungicide+zinc'',
        snippet = ''Protectant fungicide'' @ em_dash @ ''often rotated with other modes of action.''\<rparr>,
       \<lparr>active = ''sulfur'',
        title = ''Sulfur (wettable / dust) '' @ em_dash @ '' search'',
        link = ''https://www.amazon.com/s?k=sulfur+fungicide+garden'',
        snippet = ''(OMRI/Organic) Effective for powdery mildew; avoid near oils/heat per label.''\<rparr>,
       \<lparr>active = ''potassium bicarbonate'',
        title = ''Potassium bicarbonate (e.g., GreenCure) '' @ em_dash @ '' search'',
        link = ''https://www.amazon.com/s?k=potassium+bicarbonate+fungicide'',
        snippet = ''(OMRI/Organic) Contact fungicide for powdery mildew; rotate actives.''\<rparr>]),
     (''insect'',
      [\<lparr>active = ''spinosad'',
        title = ''Monterey Garden Insect Spray (Spinosad) '' @ em_dash @ '' search'',
        link = ''https://www.amazon.com/s?k=Monterey+Garden+Insect+Spray+Spinosad'',
        snippet = ''(OMRI/Organic) Thrips, leafminers, caterpillars; avoid spraying during bloom.''\<rparr>,
       \<lparr>active = ''bt'',
        title = ''Bt (Bacillus thuringiensis kurstaki) '' @ em_dash @ '' search'',
        link = ''https://www.amazon.com/s?k=Bt+kurstaki+garden'',
        snippet = ''(OMRI/Organic) Caterpillar-specific bioinsecticide.''\<rparr>,
       \<lparr>active = ''insecticidal soap'',
        title = ''Insecticidal soap (potassium salts) '' @ em_dash @ '' search'',
        link = ''https://www.amazon.com/s?k=insecticidal+soap+Safer+Brand'',
        snippet = ''(OMRI/Organic) Soft-bodied pests like aphids/whiteflies; good coverage needed.''\<rparr>,
       \<lparr>active = ''horticultural oil'',
        title = ''Horticultural oil (All Seasons) '' @ em_dash @ '' search'',
        link = ''https://www.amazon.com/s?k=horticultural+oil+all+seasons+spray'',
        snippet = ''(OMRI/Organic) Smothers eggs/soft-bodied insects & some mites.''\<rparr>,
       \<lparr>active = ''pyrethrin'',
        title = ''Pyrethrin concentrate '' @ em_dash @ '' search'',
        link = ''https://www.amazon.com/s?k=pyrethrin+concentrate+garden'',
        snippet = ''Quick knockdown; rotate to reduce resistance.''\<rparr>,
       \<lparr>active = ''azadirachtin'',
        title = ''Azadirachtin / Neem (cold-pressed) '' @ em_dash @ '' search'',
        link = ''https://www.amazon.com/s?k=azadirachtin+neem+oil+concentrate'',
        snippet = ''(OMRI/Organic) Growth regulator/repellent; check PHI/REI.''\<rparr>])]"

text \<open>\<open>CATALOG.get(category, [])\<close>.\<close>

definition catalog_get :: "catalog \<Rightarrow> string \<Rightarrow> entry list" where
  "catalog_get cat category = (case map_of cat category of None \<Rightarrow> [] | Some l \<Rightarrow> l)"

text \<open>
  The actives in the order in which the comprehension
  \<open>c["active"] for group in CATALOG.values() for c in group\<close> meets them.
\<close>

definition catalog_actives :: "catalog \<Rightarrow> string list" where
  "catalog_actives cat = map active (concat (map snd cat))"

definition ACTIVE_KEYWORDS :: "catalog \<Rightarrow> string set" where
  "ACTIVE_KEYWORDS cat = set (catalog_actives cat)"

text \<open>
  \<open>ACTIVE_KEYWORDS\<close> is a Python \<open>set\<close> of strings.  The order in which
  \<open>for active in ACTIVE_KEYWORDS\<close> visits it is fixed within one process and depends on the
  string hashes, which the interpreter salts per process; the language gives no other
  guarantee.  The loop is therefore modelled over an enumeration \<open>ks\<close> of the set, and
  \<open>keyword_order cat ks\<close> says that \<open>ks\<close> is such an enumeration: every element of the set
  once.
\<close>

definition keyword_order :: "catalog \<Rightarrow> string list \<Rightarrow> bool" where
  "keyword_order cat ks = (distinct ks \<and> set ks = ACTIVE_KEYWORDS cat)"

section \<open>Active-ingredient extractor\<close>

text \<open>
  The body of the \<open>for\<close> loop of \<open>extract_actives\<close>, on the state \<open>(found, seen)\<close>.
\<close>

fun extract_loop :: "string \<Rightarrow> string list \<Rightarrow> string list \<times> string set \<Rightarrow> string list \<times> string set" where
  "extract_loop text_l [] st = st"
| "extract_loop text_l (a # rest) (found, seen) =
     (if str_in a text_l \<and> a \<notin> seen
      then extract_loop text_l rest (found @ [a], insert a seen)
      else extract_loop text_l rest (found, seen))"

definition extract_actives :: "string list \<Rightarrow> string \<Rightarrow> string list" where
  "extract_actives ks text = fst (extract_loop (lower text) ks ([], {}))"

section \<open>Category classifier\<close>

definition detect_category :: "string \<Rightarrow> string \<Rightarrow> string" where
  "detect_category disease_text treatment_text =
     (let dl = lower disease_text @ '' '' @ lower treatment_text in
      if any_in [''bacteria'', ''bacterial'', ''canker'', ''ooze''] dl then ''bacterial''
      else if any_in [''rust'', ''blight'', ''mildew'', ''anthracnose'', ''rot'', ''fung''] dl
        then ''fungal''
      else if any_in [''aphid'', ''whitefly'', ''thrip'', ''mite'', ''borer'', ''worm'',
                      ''caterpillar'', ''beetle'', ''leafminer'', ''insect''] dl
        then ''insect''
      else ''insect'')"

section \<open>Recommendation selector\<close>

text \<open>
  The inner loop \<open>for item in catalog_list: if item["active"] == a: chosen.append(item)\<close>
  and the outer loop over the actives.
\<close>

fun append_matches :: "string \<Rightarrow> entry list \<Rightarrow> entry list \<Rightarrow> entry list" where
  "append_matches a [] chosen = chosen"
| "append_matches a (item # rest) chosen =
     append_matches a rest (if active item = a then chosen @ [item] else chosen)"

fun collect_matches :: "string list \<Rightarrow> entry list \<Rightarrow> entry list \<Rightarrow> entry list" where
  "collect_matches [] catalog_list chosen = chosen"
| "collect_matches (a # rest) catalog_list chosen =
     collect_matches rest catalog_list (append_matches a catalog_list chosen)"

text \<open>
  The backfill loop: append each catalog item that is not in \<open>chosen\<close> yet, and \<open>break\<close> as
  soon as \<open>chosen\<close> has two elements after an append.
\<close>

fun backfill :: "entry list \<Rightarrow> entry list \<Rightarrow> entry list" where
  "backfill [] chosen = chosen"
| "backfill (item # rest) chosen =
     (if item \<notin> set chosen
      then (if length (chosen @ [item]) \<ge> 2 then chosen @ [item]
            else backfill rest (chosen @ [item]))
      else backfill rest chosen)"

definition curated_products :: "catalog \<Rightarrow> string list \<Rightarrow> string \<Rightarrow> string \<Rightarrow> entry list" where
  "curated_products cat ks recommendation disease_name =
     (let category = detect_category disease_name recommendation;
          actives = extract_actives ks recommendation;
          catalog_list = catalog_get cat category
      in if catalog_list = [] then []
         else if actives \<noteq> [] then
           (let chosen = collect_matches actives catalog_list [];
                chosen = (if length chosen < 2 then backfill catalog_list chosen else chosen)
            in take 4 chosen)
         else take 2 catalog_list)"

text \<open>
  The classifier as the specification words it: both texts are concatenated, the result is
  lower-cased, and the keyword sets are tried in priority order.
\<close>

definition classify_spec :: "string \<Rightarrow> string \<Rightarrow> string" where
  "classify_spec diagnosis_text treatment_text =
     (let dl = lower (diagnosis_text @ treatment_text) in
      if any_in [''bacteria'', ''bacterial'', ''canker'', ''ooze''] dl then ''bacterial''
      else if any_in [''rust'', ''blight'', ''mildew'', ''anthracnose'', ''rot'', ''fung''] dl
        then ''fungal''
      else ''insect'')"

text \<open>
  The extractor as the specification words it: the actives that occur in the lower-cased
  text, in the order in which they appear across the catalog's category lists.
\<close>

definition extract_actives_spec :: "catalog \<Rightarrow> string \<Rightarrow> string list" where
  "extract_actives_spec cat text = filter (\<lambda>a. str_in a (lower text)) (catalog_actives cat)"

section \<open>Analysis client\<close>

text \<open>
  \<open>s.find(c)\<close> and \<open>s.rfind(c)\<close> for a one-character \<open>c\<close>: the index of the first and of
  the last occurrence, \<open>-1\<close> when there is none.  The indices count the \<open>char\<close>s of the
  model where Python counts characters; they are only used to cut the slice below, which is
  the same piece of text under both counts.
\<close>

definition str_find :: "char \<Rightarrow> string \<Rightarrow> int" where
  "str_find c s =
     (if c \<in> set s then int (length (takeWhile (\<lambda>x. x \<noteq> c) s)) else - 1)"

definition str_rfind :: "char \<Rightarrow> string \<Rightarrow> int" where
  "str_rfind c s =
     (if c \<in> set s
      then int (length s) - 1 - int (length (takeWhile (\<lambda>x. x \<noteq> c) (rev s)))
      else - 1)"

text \<open>
  The slice \<open>text[s:e]\<close>: a negative index counts from the end, and both indices are
  clamped to the string.
\<close>

definition slice_index :: "nat \<Rightarrow> int \<Rightarrow> nat" where
  "slice_index n i = (if i < 0 then nat (max 0 (int n + i)) else min n (nat i))"

definition slice :: "string \<Rightarrow> int \<Rightarrow> int \<Rightarrow> string" where
  "slice text s e =
     drop (slice_index (length text) s) (take (slice_index (length text) e) text)"

text \<open>
  The dictionary \<open>{"error": ..., "raw": ...}\<close> that \<open>analyze_plant\<close> returns instead of a
  decoded object.
\<close>

record error_dict =
  error :: string
  raw :: string

text \<open>
  The last lines of \<open>analyze_plant\<close>, from \<open>s, e = text.find("{"), text.rfind("}") + 1\<close> on.
  \<open>json.loads\<close> belongs to the standard library and is a parameter: \<open>Inr v\<close> is the decoded
  value, \<open>Inl ex\<close> an exception whose text is \<open>ex\<close>; the type \<open>'j\<close> of decoded values is
  left open.
\<close>

definition parse_response :: "(string \<Rightarrow> string + 'j) \<Rightarrow> string \<Rightarrow> error_dict + 'j" where
  "parse_response json_loads text =
     (let s = str_find CHR ''{'' text; e = str_rfind CHR ''}'' text + 1 in
      if s < 0 \<or> e \<le> 0
      then Inl \<lparr>error = ''Failed to parse the model response'', raw = text\<rparr>
      else (case json_loads (slice text s e) of
              Inr v \<Rightarrow> Inr v
            | Inl ex \<Rightarrow> Inl \<lparr>error = ''Invalid JSON: '' @ ex, raw = slice text s e\<rparr>))"

definition nl :: string where
  "nl = [CHR 0x0A]"

definition build_prompt :: "string \<Rightarrow> string" where
  \<open>build_prompt plant_name =
     nl @ ''    Analyze this image of a '' @ plant_name @ '' plant (United States context).'' @
     nl @ ''    Return ONLY valid JSON in this exact shape:'' @
     nl @ ''    {'' @
     nl @ ''      "results": ['' @
     nl @ ''        {"type":"disease|pest","name":"...","probability":"%","symptoms":"...",'' @
           ''"causes":"...","severity":"Low|Medium|High","spreading":"...",'' @
           ''"treatment":"Short, precise treatment text with active ingredients if possible",'' @
           ''"prevention":"..."}'' @
     nl @ ''      ],'' @
     nl @ ''      "is_healthy": true|false,'' @
     nl @ ''      "confidence": "%"'' @
     nl @ ''    }'' @
     nl @ ''    If the plant looks healthy, set "is_healthy": true and "results": [].'' @
     nl @ ''    ''\<close>

text \<open>
  The inference backend is a parameter: \<open>generate_content prompt image\<close> is \<open>resp.text\<close>,
  which may be \<open>None\<close>.
\<close>

definition analyze_plant ::
  "(string \<Rightarrow> string \<Rightarrow> string option) \<Rightarrow> (string \<Rightarrow> string + 'j) \<Rightarrow> string \<Rightarrow> string \<Rightarrow> error_dict + 'j" where
  "analyze_plant generate_content json_loads image_b64 plant_name =
     (let text = (case generate_content (build_prompt plant_name) image_b64 of
                    None \<Rightarrow> [] | Some t \<Rightarrow> t)
      in parse_response json_loads text)"

text \<open>
  The span the specification describes: from the first opening brace to the last closing
  brace, both included.  \<open>brace_span text span\<close> holds when \<open>text\<close> splits so.
\<close>

definition brace_span :: "string \<Rightarrow> string \<Rightarrow> bool" where
  "brace_span text span =
     (\<exists>pre mid post. text = pre @ ''{'' @ mid @ ''}'' @ post \<and> span = ''{'' @ mid @ ''}'' \<and>
        CHR ''{'' \<notin> set pre \<and> CHR ''}'' \<notin> set post)"

text \<open>
  A decoded JSON value, and a decoder for the one document of the specification's example;
  it stands in for \<open>json.loads\<close> where a theorem is run on that example.
\<close>

datatype json = JNull | JBool bool | JString string | JArray "json list"
  | JObject "(string \<times> json) list"

definition example_loads :: "string \<Rightarrow> string + json" where
  \<open>example_loads s =
     (if s = ''{"is_healthy": true, "results": [], "confidence": "95%"}''
      then Inr (JObject [(''is_healthy'', JBool True), (''results'', JArray []),
                         (''confidence'', JString ''95%'')])
      else Inl ''Expecting value: line 1 column 1 (char 0)'')\<close>

section \<open>Summary synthesizer\<close>

text \<open>
  The analysis has the shape the prompt asks for: \<open>is_healthy\<close> a Boolean, \<open>results\<close> a
  list of findings, each finding a dictionary from field name to text.  Any key may be
  absent: \<open>analysis.get(k)\<close> is then \<open>None\<close>, which is false in a condition.
\<close>

type_synonym finding = "string \<rightharpoonup> string"

record analysis =
  is_healthy :: "bool option"
  results :: "finding list option"

text \<open>\<open>r.get(key, default)\<close>.\<close>

definition dict_get :: "finding \<Rightarrow> string \<Rightarrow> string \<Rightarrow> string" where
  "dict_get r key dflt = (case r key of None \<Rightarrow> dflt | Some v \<Rightarrow> v)"

text \<open>\<open>sep.join(parts)\<close>.\<close>

fun join :: "string \<Rightarrow> string list \<Rightarrow> string" where
  "join sep [] = []"
| "join sep [p] = p"
| "join sep (p # q # ps) = p @ sep @ join sep (q # ps)"

definition finding_sentence :: "finding \<Rightarrow> string" where
  "finding_sentence r =
     dict_get r ''name'' ''Unknown'' @ ''. Symptoms: '' @ dict_get r ''symptoms'' [] @ ''. '' @
     ''Treatment: '' @ dict_get r ''treatment'' [] @ ''. Prevention: '' @
     dict_get r ''prevention'' [] @ ''.''"

definition summary_text :: "analysis \<Rightarrow> string \<Rightarrow> string" where
  "summary_text a plant_name =
     (if is_healthy a = Some True
      then ''Your '' @ plant_name @ '' plant appears healthy. Keep doing what you are doing.''
      else (case results a of
              Some (r # rs) \<Rightarrow> ''Detected issues: '' @ join '' '' (map finding_sentence (r # rs))
            | _ \<Rightarrow> ''Analysis inconclusive.''))"

text \<open>
  The speech backend is a parameter: \<open>gtts summary\<close> is the encoded audio, or \<open>None\<close> when
  the synthesis raises.
\<close>

type_synonym bytes = "char list"

definition synthesize_summary :: "(string \<Rightarrow> bytes option) \<Rightarrow> analysis \<Rightarrow> string \<Rightarrow> bytes" where
  "synthesize_summary gtts a plant_name =
     (case gtts (summary_text a plant_name) of None \<Rightarrow> [] | Some audio \<Rightarrow> audio)"

text \<open>
  The sentence of one finding as the specification words it: every missing field is the
  empty string.
\<close>

definition finding_sentence_spec :: "finding \<Rightarrow> string" where
  "finding_sentence_spec r =
     dict_get r ''name'' [] @ ''. Symptoms: '' @ dict_get r ''symptoms'' [] @ ''. '' @
     ''Treatment: '' @ dict_get r ''treatment'' [] @ ''. Prevention: '' @
     dict_get r ''prevention'' [] @ ''.''"

section \<open>Image normalisation\<close>


section \<open>Auxiliary facts\<close>

lemmas lower_eval =
  lower.simps lower_char_def kelvin_sign_def capital_i_dot_def small_i_dot_def

lemma str_in_sublist: "str_in w s \<longleftrightarrow> sublist w s"
  by (induction s) (simp_all add: sublist_Cons_right)

lemma any_in_iff: "any_in ws dl \<longleftrightarrow> (\<exists>w \<in> set ws. sublist w dl)"
  by (induction ws) (simp_all add: str_in_sublist)

lemma extract_loop_filter:
  "distinct ks \<Longrightarrow>
   fst (extract_loop t ks (found, seen)) = found @ filter (\<lambda>a. str_in a t \<and> a \<notin> seen) ks"
proof (induction ks arbitrary: found seen)
  case Nil
  then show ?case by simp
next
  case (Cons a ks)
  have "filter (\<lambda>b. str_in b t \<and> b \<notin> insert a seen) ks = filter (\<lambda>b. str_in b t \<and> b \<notin> seen) ks"
    using Cons.prems by (intro filter_cong) auto
  with Cons show ?case by simp
qed

lemma set_append_matches: "set (append_matches a cl chosen) \<subseteq> set chosen \<union> set cl"
proof (induction cl arbitrary: chosen)
  case Nil
  then show ?case by simp
next
  case (Cons item cl)
  show ?case
    using Cons.IH [of "chosen @ [item]"] Cons.IH [of chosen] by auto
qed

lemma set_collect_matches: "set (collect_matches as cl chosen) \<subseteq> set chosen \<union> set cl"
proof (induction as arbitrary: chosen)
  case Nil
  then show ?case by simp
next
  case (Cons a as)
  show ?case using Cons.IH [of "append_matches a cl chosen"] set_append_matches [of a cl chosen]
    by auto
qed

lemma set_backfill: "set (backfill rest chosen) \<subseteq> set chosen \<union> set rest"
proof (induction rest arbitrary: chosen)
  case Nil
  then show ?case by simp
next
  case (Cons item rest)
  show ?case
    using Cons.IH [of "chosen @ [item]"] Cons.IH [of chosen] by auto
qed

lemma length_backfill:
  "distinct rest \<Longrightarrow>
   min 2 (length chosen + length (filter (\<lambda>x. x \<notin> set chosen) rest)) \<le> length (backfill rest chosen)"
proof (induction rest arbitrary: chosen)
  case Nil
  then show ?case by simp
next
  case (Cons item rest)
  show ?case
  proof (cases "item \<in> set chosen")
    case True
    then show ?thesis using Cons by simp
  next
    case False
    have eq: "filter (\<lambda>x. x \<notin> set (chosen @ [item])) rest = filter (\<lambda>x. x \<notin> set chosen) rest"
      using Cons.prems by (intro filter_cong) auto
    show ?thesis
    proof (cases "2 \<le> length (chosen @ [item])")
      case True
      with False show ?thesis by simp
    next
      case short: False
      have "min 2 (length (chosen @ [item]) + length (filter (\<lambda>x. x \<notin> set (chosen @ [item])) rest))
            \<le> length (backfill rest (chosen @ [item]))"
        using Cons.IH [of "chosen @ [item]"] Cons.prems by simp
      with False short eq show ?thesis by simp
    qed
  qed
qed

lemma filter_notin_short:
  assumes "distinct cl" "length chosen < 2"
  shows "min 2 (length cl) \<le> length chosen + length (filter (\<lambda>x. x \<notin> set chosen) cl)"
proof -
  have "length (filter (\<lambda>x. x \<in> set chosen) cl) \<le> length chosen"
  proof -
    have "distinct (filter (\<lambda>x. x \<in> set chosen) cl)" using assms(1) by simp
    then have "length (filter (\<lambda>x. x \<in> set chosen) cl) = card (set (filter (\<lambda>x. x \<in> set chosen) cl))"
      by (metis distinct_card)
    also have "\<dots> \<le> card (set chosen)" by (intro card_mono) auto
    also have "\<dots> \<le> length chosen" by (rule card_length)
    finally show ?thesis .
  qed
  moreover have "length cl = length (filter (\<lambda>x. x \<in> set chosen) cl) + length (filter (\<lambda>x. x \<notin> set chosen) cl)"
    using sum_length_filter_compl [of "\<lambda>x. x \<in> set chosen" cl] by simp
  ultimately show ?thesis by simp
qed

lemma length_select_lower:
  assumes "distinct cl"
  shows "min 2 (length cl) \<le> length (take 4 (if length chosen < 2 then backfill cl chosen else chosen))"
proof (cases "length chosen < 2")
  case True
  have "min 2 (length cl) \<le> length (backfill cl chosen)"
    using length_backfill [OF assms, of chosen] filter_notin_short [OF assms True] by simp
  with True show ?thesis by simp
next
  case False
  then show ?thesis by auto
qed

lemma curated_products_length_lower:
  assumes "distinct (catalog_get cat (detect_category d r))"
  shows "min 2 (length (catalog_get cat (detect_category d r))) \<le> length (curated_products cat ks r d)"
  using length_select_lower [OF assms] by (simp add: curated_products_def Let_def)

lemma curated_products_length_upper: "length (curated_products cat ks r d) \<le> 4"
  by (auto simp add: curated_products_def Let_def)

lemma curated_products_subset:
  "set (curated_products cat ks r d) \<subseteq> set (catalog_get cat (detect_category d r))"
proof -
  let ?cl = "catalog_get cat (detect_category d r)"
  let ?ch = "collect_matches (extract_actives ks r) ?cl []"
  have a: "set ?ch \<subseteq> set ?cl" using set_collect_matches [of "extract_actives ks r" ?cl "[]"] by simp
  have b: "set (backfill ?cl ?ch) \<subseteq> set ?cl" using set_backfill [of ?cl ?ch] a by auto
  have c: "set (take 4 (if length ?ch < 2 then backfill ?cl ?ch else ?ch)) \<subseteq> set ?cl"
    using a b set_take_subset [of 4 "backfill ?cl ?ch"] set_take_subset [of 4 ?ch] by auto
  have e: "set (take 2 ?cl) \<subseteq> set ?cl" by (rule set_take_subset)
  show ?thesis using c e by (simp add: curated_products_def Let_def)
qed

lemma CATALOG_distinct: "distinct (catalog_get CATALOG c)"
proof -
  have "distinct (map active (catalog_get CATALOG c))"
    by (simp add: catalog_get_def CATALOG_def)
  then show ?thesis by (simp add: distinct_map)
qed

lemma str_find_absent: "str_find c s < 0 \<longleftrightarrow> c \<notin> set s"
  by (simp add: str_find_def)

lemma str_rfind_absent: "str_rfind c s + 1 \<le> 0 \<longleftrightarrow> c \<notin> set s"
proof (cases "c \<in> set s")
  case True
  then have "c \<in> set (rev s)" by simp
  then have "dropWhile (\<lambda>x. x \<noteq> c) (rev s) \<noteq> []"
    by (simp add: dropWhile_eq_Nil_conv)
  moreover have "length (rev s) =
      length (takeWhile (\<lambda>x. x \<noteq> c) (rev s)) + length (dropWhile (\<lambda>x. x \<noteq> c) (rev s))"
    by (metis length_append takeWhile_dropWhile_id)
  ultimately have "length (takeWhile (\<lambda>x. x \<noteq> c) (rev s)) < length (rev s)"
    by simp
  then show ?thesis using True by (simp add: str_rfind_def)
next
  case False
  then show ?thesis by (simp add: str_rfind_def)
qed

lemma str_find_first:
  assumes "c \<notin> set pre"
  shows "str_find c (pre @ c # rest) = int (length pre)"
proof -
  have "\<And>x. x \<in> set pre \<Longrightarrow> x \<noteq> c" using assms by auto
  then have "takeWhile (\<lambda>x. x \<noteq> c) (pre @ c # rest) = pre"
    by simp
  then show ?thesis by (simp add: str_find_def)
qed

lemma str_rfind_last:
  assumes "c \<notin> set post"
  shows "str_rfind c (pre @ c # post) = int (length pre)"
proof -
  have "\<And>x. x \<in> set (rev post) \<Longrightarrow> x \<noteq> c" using assms by auto
  then have "takeWhile (\<lambda>x. x \<noteq> c) (rev post @ c # rev pre) =
             rev post @ takeWhile (\<lambda>x. x \<noteq> c) (c # rev pre)"
    by (rule takeWhile_append2)
  then have "takeWhile (\<lambda>x. x \<noteq> c) (rev post @ c # rev pre) = rev post"
    by simp
  then have "takeWhile (\<lambda>x. x \<noteq> c) (rev (pre @ c # post)) = rev post"
    by simp
  then show ?thesis by (simp add: str_rfind_def)
qed

lemma slice_between:
  "slice (pre @ mid @ post) (int (length pre)) (int (length pre + length mid)) = mid"
  by (simp add: slice_def slice_index_def)

lemma brace_span_indices:
  assumes "brace_span text span"
  shows "str_find CHR ''{'' text \<ge> 0 \<and> str_rfind CHR ''}'' text + 1 > 0 \<and>
         slice text (str_find CHR ''{'' text) (str_rfind CHR ''}'' text + 1) = span"
proof -
  from assms obtain pre mid post where
    t: "text = pre @ ''{'' @ mid @ ''}'' @ post" and sp: "span = ''{'' @ mid @ ''}''" and
    a: "CHR ''{'' \<notin> set pre" and b: "CHR ''}'' \<notin> set post"
    unfolding brace_span_def by blast
  have f: "str_find CHR ''{'' text = int (length pre)"
    using str_find_first [OF a, of "mid @ ''}'' @ post"] t by simp
  have "text = (pre @ ''{'' @ mid) @ CHR ''}'' # post" using t by simp
  then have r: "str_rfind CHR ''}'' text = int (length (pre @ ''{'' @ mid))"
    using str_rfind_last [OF b, of "pre @ ''{'' @ mid"] by simp
  have "slice (pre @ span @ post) (int (length pre)) (int (length pre + length span)) = span"
    by (rule slice_between)
  moreover have "text = pre @ span @ post" using t sp by simp
  moreover have "str_rfind CHR ''}'' text + 1 = int (length pre + length span)"
    using r sp by simp
  ultimately show ?thesis using f sp by simp
qed

lemma braces_out_of_order:
  assumes "text = pre @ ''}'' @ mid @ ''{'' @ post"
    and "CHR ''{'' \<notin> set pre" "CHR ''{'' \<notin> set mid" "CHR ''}'' \<notin> set mid" "CHR ''}'' \<notin> set post"
  shows "str_find CHR ''{'' text \<ge> 0 \<and> str_rfind CHR ''}'' text + 1 > 0 \<and>
         slice text (str_find CHR ''{'' text) (str_rfind CHR ''}'' text + 1) = []"
proof -
  have "text = (pre @ ''}'' @ mid) @ CHR ''{'' # post" using assms(1) by simp
  moreover have "CHR ''{'' \<notin> set (pre @ ''}'' @ mid)" using assms by simp
  ultimately have f: "str_find CHR ''{'' text = int (length (pre @ ''}'' @ mid))"
    using str_find_first by blast
  have "text = pre @ CHR ''}'' # (mid @ ''{'' @ post)" using assms(1) by simp
  moreover have "CHR ''}'' \<notin> set (mid @ ''{'' @ post)" using assms by simp
  ultimately have r: "str_rfind CHR ''}'' text = int (length pre)"
    using str_rfind_last by blast
  show ?thesis using f r by (simp add: slice_def slice_index_def assms(1))
qed

lemma detect_category_bacterial:
  assumes "sublist w (lower d)" "w \<in> {''bacteria'', ''bacterial'', ''canker'', ''ooze''}"
  shows "detect_category d r = ''bacterial''"
proof -
  have "sublist w (lower d @ '' '' @ lower r)"
    using assms(1) by (meson sublist_appendI sublist_order.order_trans sublist_append_rightI)
  then have "any_in [''bacteria'', ''bacterial'', ''canker'', ''ooze''] (lower d @ '' '' @ lower r)"
    using assms(2) by (auto simp: any_in_iff)
  then show ?thesis by (simp add: detect_category_def Let_def)
qed

lemma CATALOG_bacterial: "map active (catalog_get CATALOG ''bacterial'') = [''copper'']"
  by (simp add: catalog_get_def CATALOG_def)

lemma CATALOG_actives_distinct: "distinct (catalog_actives CATALOG)"
  by (simp add: catalog_actives_def CATALOG_def)

lemma CATALOG_actives_nonempty: "[] \<notin> set (catalog_actives CATALOG)"
  by (simp add: catalog_actives_def CATALOG_def)

lemma extract_loop_empty_text:
  "[] \<notin> set ks \<Longrightarrow> extract_loop [] ks st = st"
  by (induction ks arbitrary: st) (auto split: prod.splits)

section \<open>Recommendation selector: size of the result\<close>

text \<open>
  C1 (as amended).  For every recommendation text and disease-name text, and whatever the
  order in which the keyword set is visited, \<open>curated_products\<close> on the program's catalog
  returns at most 4 entries and at least \<open>min 2 n\<close> entries, where \<open>n\<close> is the length of the
  catalog list of the resolved category: two entries when the list has two or more, and the
  whole list when it is shorter.
\<close>

theorem curated_products_bounds:
  "length (curated_products CATALOG ks recommendation disease_name) \<le> 4 \<and>
   min 2 (length (catalog_get CATALOG (detect_category disease_name recommendation)))
     \<le> length (curated_products CATALOG ks recommendation disease_name)"
  using curated_products_length_upper [of CATALOG ks recommendation disease_name]
    curated_products_length_lower [OF CATALOG_distinct, of disease_name recommendation ks]
  by simp

theorem curated_products_bounds_witness:
  "length (curated_products CATALOG (catalog_actives CATALOG) ''apply sulfur at first sign'' ''powdery mildew'') \<le> 4 \<and>
   2 \<le> length (curated_products CATALOG (catalog_actives CATALOG) ''apply sulfur at first sign'' ''powdery mildew'')"
proof -
  have "lower ''powdery mildew'' = ''powdery mildew''"
    and "lower ''apply sulfur at first sign'' = ''apply sulfur at first sign''"
    by (simp_all add: lower_eval)
  then have "detect_category ''powdery mildew'' ''apply sulfur at first sign'' = ''fungal''"
    by (simp add: detect_category_def)
  then have "length (catalog_get CATALOG (detect_category ''powdery mildew'' ''apply sulfur at first sign'')) = 4"
    by (simp add: catalog_get_def CATALOG_def)
  then show ?thesis
    using curated_products_bounds [of "catalog_actives CATALOG" "''apply sulfur at first sign''" "''powdery mildew''"]
    by simp
qed

text \<open>
  The claim as the specification states it, at least 2 entries whenever the category's list
  is non-empty, fails on the bacterial category, whose list has one entry.
\<close>

theorem curated_products_two_counterexample:
  "catalog_get CATALOG (detect_category ''bacterial spot'' ''apply copper spray'') \<noteq> [] \<and>
   length (curated_products CATALOG (catalog_actives CATALOG) ''apply copper spray'' ''bacterial spot'') = 1"
proof -
  have "lower ''bacterial spot'' = ''bacterial spot''"
    and "lower ''apply copper spray'' = ''apply copper spray''"
    by (simp_all add: lower_eval)
  then show ?thesis
    by (simp add: curated_products_def detect_category_def extract_actives_def catalog_get_def
        catalog_actives_def CATALOG_def)
qed

section \<open>Active-ingredient extractor: content and order of the result\<close>

text \<open>
  C2 (as amended).  For every input text and every order \<open>ks\<close> in which the keyword set is
  visited, \<open>extract_actives\<close> returns the known actives that occur as substrings of the
  lower-cased input, each once, listed in the order \<open>ks\<close> of the set's iteration (not in input
  order).
\<close>

theorem extract_actives_content:
  assumes "keyword_order cat ks"
  shows "extract_actives ks text = filter (\<lambda>a. sublist a (lower text)) ks \<and>
         distinct (extract_actives ks text) \<and>
         set (extract_actives ks text) = {a \<in> ACTIVE_KEYWORDS cat. sublist a (lower text)}"
proof -
  from assms have d: "distinct ks" and s: "set ks = ACTIVE_KEYWORDS cat"
    by (simp_all add: keyword_order_def)
  have eq: "extract_actives ks text = filter (\<lambda>a. sublist a (lower text)) ks"
    using extract_loop_filter [OF d, of "lower text" "[]" "{}"]
    by (simp add: extract_actives_def str_in_sublist)
  moreover have "distinct (filter (\<lambda>a. sublist a (lower text)) ks)" using d by simp
  moreover have "set (filter (\<lambda>a. sublist a (lower text)) ks) = {a \<in> ACTIVE_KEYWORDS cat. sublist a (lower text)}"
    using s by auto
  ultimately show ?thesis by simp
qed

theorem extract_actives_content_witness:
  "keyword_order CATALOG (rev (catalog_actives CATALOG)) \<and>
   extract_actives (rev (catalog_actives CATALOG)) ''Rotate Copper with sulfur'' = [''sulfur'', ''copper'']"
proof -
  have k: "keyword_order CATALOG (rev (catalog_actives CATALOG))"
    using CATALOG_actives_distinct by (simp add: keyword_order_def ACTIVE_KEYWORDS_def)
  have "lower ''Rotate Copper with sulfur'' = ''rotate copper with sulfur''"
    by (simp add: lower_eval)
  then have "filter (\<lambda>a. sublist a (lower ''Rotate Copper with sulfur'')) (rev (catalog_actives CATALOG))
        = [''sulfur'', ''copper'']"
    by (simp add: str_in_sublist [symmetric] catalog_actives_def CATALOG_def)
  then show ?thesis
    using k extract_actives_content [OF k, of "''Rotate Copper with sulfur''"] by simp
qed

text \<open>
  The claim as the specification states it, catalog order, fails for an iteration order of
  the set other than the catalog's: visiting the set in the reverse order lists sulfur before
  copper, where the catalog has copper first.
\<close>

theorem extract_actives_catalog_order_counterexample:
  "keyword_order CATALOG (rev (catalog_actives CATALOG)) \<and>
   extract_actives (rev (catalog_actives CATALOG)) ''copper and sulfur'' = [''sulfur'', ''copper''] \<and>
   extract_actives_spec CATALOG ''copper and sulfur'' = [''copper'', ''sulfur'']"
proof -
  have "keyword_order CATALOG (rev (catalog_actives CATALOG))"
    using CATALOG_actives_distinct by (simp add: keyword_order_def ACTIVE_KEYWORDS_def)
  moreover have l: "lower ''copper and sulfur'' = ''copper and sulfur''"
    by (simp add: lower_eval)
  moreover have "extract_actives (rev (catalog_actives CATALOG)) ''copper and sulfur'' = [''sulfur'', ''copper'']"
    by (simp add: extract_actives_def catalog_actives_def CATALOG_def l)
  moreover have "extract_actives_spec CATALOG ''copper and sulfur'' = [''copper'', ''sulfur'']"
    by (simp add: extract_actives_spec_def catalog_actives_def CATALOG_def l)
  ultimately show ?thesis by simp
qed

section \<open>Category classifier: priority order\<close>

text \<open>
  C3 (as amended).  For every pair of diagnosis and treatment texts, \<open>detect_category\<close> tests
  the text \<open>dl\<close> made of the lower-cased diagnosis, one space, and the lower-cased treatment
  against the keyword sets in the fixed priority order bacterial, fungal, insect.  The first
  category with a keyword in \<open>dl\<close> wins, bacterial also when fungal or insect keywords are
  present, and the result is insect when no keyword of any set occurs.  Lower-casing is that
  of \<open>str.lower\<close>, under which a Kelvin sign in the text counts as the \<open>k\<close> of \<open>canker\<close>.
\<close>

theorem detect_category_priority:
  "let dl = lower disease_text @ '' '' @ lower treatment_text;
       bacterial = (\<exists>w \<in> {''bacteria'', ''bacterial'', ''canker'', ''ooze''}. sublist w dl);
       fungal = (\<exists>w \<in> {''rust'', ''blight'', ''mildew'', ''anthracnose'', ''rot'', ''fung''}.
                   sublist w dl);
       insect = (\<exists>w \<in> {''aphid'', ''whitefly'', ''thrip'', ''mite'', ''borer'', ''worm'',
                         ''caterpillar'', ''beetle'', ''leafminer'', ''insect''}. sublist w dl)
   in (bacterial \<longrightarrow> detect_category disease_text treatment_text = ''bacterial'') \<and>
      (\<not> bacterial \<and> fungal \<longrightarrow> detect_category disease_text treatment_text = ''fungal'') \<and>
      (\<not> bacterial \<and> \<not> fungal \<and> insect \<longrightarrow>
         detect_category disease_text treatment_text = ''insect'') \<and>
      (\<not> bacterial \<and> \<not> fungal \<and> \<not> insect \<longrightarrow>
         detect_category disease_text treatment_text = ''insect'')"
  by (simp add: detect_category_def Let_def any_in_iff)

theorem detect_category_priority_witness:
  "detect_category ''Bacterial canker'' ''treat the rust and the aphids too'' = ''bacterial'' \<and>
   detect_category ''Late Blight'' ''remove leaves; watch for mites'' = ''fungal'' \<and>
   detect_category ''Whitefly'' ''rinse the leaves'' = ''insect'' \<and>
   detect_category ''Sunscald'' ''shade the plant'' = ''insect'' \<and>
   detect_category (''Stem can'' @ kelvin_sign @ ''er'') [] = ''bacterial''"
proof -
  have l: "lower ''Bacterial canker'' = ''bacterial canker''"
    "lower ''treat the rust and the aphids too'' = ''treat the rust and the aphids too''"
    "lower ''Late Blight'' = ''late blight''"
    "lower ''remove leaves; watch for mites'' = ''remove leaves; watch for mites''"
    "lower ''Whitefly'' = ''whitefly''"
    "lower ''rinse the leaves'' = ''rinse the leaves''"
    "lower ''Sunscald'' = ''sunscald''"
    "lower ''shade the plant'' = ''shade the plant''"
    "lower (''Stem can'' @ kelvin_sign @ ''er'') = ''stem canker''"
    "lower [] = []"
    by (simp_all add: lower_eval)
  have "detect_category ''Bacterial canker'' ''treat the rust and the aphids too'' = ''bacterial''"
    using detect_category_priority [of "''Bacterial canker''" "''treat the rust and the aphids too''"]
    by (simp add: Let_def str_in_sublist [symmetric] l)
  moreover have "detect_category ''Late Blight'' ''remove leaves; watch for mites'' = ''fungal''"
    using detect_category_priority [of "''Late Blight''" "''remove leaves; watch for mites''"]
    by (simp add: Let_def str_in_sublist [symmetric] l)
  moreover have "detect_category ''Whitefly'' ''rinse the leaves'' = ''insect''"
    using detect_category_priority [of "''Whitefly''" "''rinse the leaves''"]
    by (simp add: Let_def str_in_sublist [symmetric] l)
  moreover have "detect_category ''Sunscald'' ''shade the plant'' = ''insect''"
    using detect_category_priority [of "''Sunscald''" "''shade the plant''"]
    by (simp add: Let_def str_in_sublist [symmetric] l)
  moreover have "detect_category (''Stem can'' @ kelvin_sign @ ''er'') [] = ''bacterial''"
    using detect_category_priority [of "''Stem can'' @ kelvin_sign @ ''er''" "[]"]
    unfolding l by (simp add: Let_def str_in_sublist [symmetric])
  ultimately show ?thesis by simp
qed

text \<open>
  The claim as the specification states it tests the concatenation of the two texts.  The
  program puts a space between them, so a keyword that only the concatenation spells is not
  seen.
\<close>

theorem detect_category_concatenation_counterexample:
  "classify_spec ''fun'' ''gal infection'' = ''fungal'' \<and>
   detect_category ''fun'' ''gal infection'' = ''insect''"
proof -
  have "lower ''fun'' = ''fun''" and "lower ''gal infection'' = ''gal infection''"
    and "lower (''fun'' @ ''gal infection'') = ''fungal infection''"
    by (simp_all add: lower_eval)
  then show ?thesis by (simp add: classify_spec_def detect_category_def)
qed

section \<open>Analysis client: the parsing step\<close>

text \<open>
  C4.  For every backend response text the parsing step returns a value, and an exception
  of the JSON decoder becomes an error value.  If the text has no opening brace or no closing
  brace, the result is the error dictionary with the message
  \<open>Failed to parse the model response\<close> and the original text as \<open>raw\<close>.  If the span from
  the first opening brace to the last closing brace is rejected by the decoder with message
  \<open>msg\<close>, the result is the error dictionary with the message \<open>Invalid JSON: msg\<close> and that
  span as \<open>raw\<close>.  In the one remaining case, where the last closing brace stands before the
  first opening brace, the decoder is given the empty string, and its rejection is reported in
  the same way.
\<close>

theorem parse_response_errors:
  "(CHR ''{'' \<notin> set text \<or> CHR ''}'' \<notin> set text \<longrightarrow>
      parse_response json_loads text =
        Inl \<lparr>error = ''Failed to parse the model response'', raw = text\<rparr>) \<and>
   (brace_span text span \<and> json_loads span = Inl msg \<longrightarrow>
      parse_response json_loads text = Inl \<lparr>error = ''Invalid JSON: '' @ msg, raw = span\<rparr>) \<and>
   (text = pre @ ''}'' @ mid @ ''{'' @ post \<and> CHR ''{'' \<notin> set pre \<and> CHR ''{'' \<notin> set mid \<and>
    CHR ''}'' \<notin> set mid \<and> CHR ''}'' \<notin> set post \<and> json_loads [] = Inl msg \<longrightarrow>
      parse_response json_loads text = Inl \<lparr>error = ''Invalid JSON: '' @ msg, raw = []\<rparr>)"
proof (intro conjI impI)
  assume "CHR ''{'' \<notin> set text \<or> CHR ''}'' \<notin> set text"
  then have "str_find CHR ''{'' text < 0 \<or> str_rfind CHR ''}'' text + 1 \<le> 0"
    by (simp only: str_find_absent str_rfind_absent)
  then show "parse_response json_loads text =
      Inl \<lparr>error = ''Failed to parse the model response'', raw = text\<rparr>"
    by (auto simp add: parse_response_def Let_def)
next
  assume a: "brace_span text span \<and> json_loads span = Inl msg"
  then show "parse_response json_loads text =
      Inl \<lparr>error = ''Invalid JSON: '' @ msg, raw = span\<rparr>"
    using brace_span_indices [of "text" "span"] by (simp add: parse_response_def Let_def)
next
  assume a: "text = pre @ ''}'' @ mid @ ''{'' @ post \<and> CHR ''{'' \<notin> set pre \<and>
    CHR ''{'' \<notin> set mid \<and> CHR ''}'' \<notin> set mid \<and> CHR ''}'' \<notin> set post \<and> json_loads [] = Inl msg"
  then have "str_find CHR ''{'' text \<ge> 0 \<and> str_rfind CHR ''}'' text + 1 > 0 \<and>
         slice text (str_find CHR ''{'' text) (str_rfind CHR ''}'' text + 1) = []"
    using braces_out_of_order [of "text" pre mid post] by blast
  with a show "parse_response json_loads text =
      Inl \<lparr>error = ''Invalid JSON: '' @ msg, raw = []\<rparr>"
    by (simp add: parse_response_def Let_def)
qed

theorem parse_response_errors_witness:
  \<open>parse_response example_loads ''I cannot see a plant in this image.'' =
     Inl \<lparr>error = ''Failed to parse the model response'',
          raw = ''I cannot see a plant in this image.''\<rparr> \<and>
   parse_response example_loads ''Result: {"is_healthy": maybe} done'' =
     Inl \<lparr>error = ''Invalid JSON: Expecting value: line 1 column 1 (char 0)'',
          raw = ''{"is_healthy": maybe}''\<rparr> \<and>
   parse_response example_loads ''} then {'' =
     Inl \<lparr>error = ''Invalid JSON: Expecting value: line 1 column 1 (char 0)'', raw = []\<rparr>\<close>
proof -
  have b: \<open>brace_span ''Result: {"is_healthy": maybe} done'' ''{"is_healthy": maybe}''\<close>
    unfolding brace_span_def
    by (intro exI [of _ "''Result: ''"] exI [of _ \<open>''"is_healthy": maybe''\<close>] exI [of _ "'' done''"])
      simp
  have l: \<open>example_loads ''{"is_healthy": maybe}'' = Inl ''Expecting value: line 1 column 1 (char 0)''\<close>
    by (simp add: example_loads_def)
  have e: "example_loads [] = Inl ''Expecting value: line 1 column 1 (char 0)''"
    by (simp add: example_loads_def)
  note no_brace = parse_response_errors [THEN conjunct1, rule_format]
  note rejected = parse_response_errors [THEN conjunct2, THEN conjunct1, rule_format]
  note disordered = parse_response_errors [THEN conjunct2, THEN conjunct2, rule_format]
  have "parse_response example_loads ''I cannot see a plant in this image.'' =
     Inl \<lparr>error = ''Failed to parse the model response'',
          raw = ''I cannot see a plant in this image.''\<rparr>"
    by (rule no_brace) simp
  moreover have \<open>parse_response example_loads ''Result: {"is_healthy": maybe} done'' =
     Inl \<lparr>error = ''Invalid JSON: '' @ ''Expecting value: line 1 column 1 (char 0)'',
          raw = ''{"is_healthy": maybe}''\<rparr>\<close>
    by (rule rejected) (rule conjI [OF b l])
  moreover have "parse_response example_loads ''} then {'' =
     Inl \<lparr>error = ''Invalid JSON: '' @ ''Expecting value: line 1 column 1 (char 0)'', raw = []\<rparr>"
    by (rule disordered [of _ "[]" "'' then ''" "[]"]) (simp add: e)
  ultimately show ?thesis by simp
qed

text \<open>
  C5.  For every backend response text with an opening brace and a later closing brace, if
  the decoder accepts the span from the first opening brace to the last closing brace, the
  parsing step returns the decoded value as the decoder gave it, with no further check.  In
  particular, for the response
  \<open>Here is the result: {"is_healthy": true, "results": [], "confidence": "95%"} Thanks!\<close>
  the decoder is given exactly the object text between the braces, and its value is the
  result.
\<close>

theorem parse_response_success:
  \<open>(brace_span text span \<and> json_loads span = Inr v \<longrightarrow> parse_response json_loads text = Inr v) \<and>
   (json_loads ''{"is_healthy": true, "results": [], "confidence": "95%"}'' = Inr v \<longrightarrow>
      parse_response json_loads
        ''Here is the result: {"is_healthy": true, "results": [], "confidence": "95%"} Thanks!''
      = Inr v)\<close>
proof -
  have general: "parse_response json_loads t = Inr v"
    if "brace_span t sp" "json_loads sp = Inr v" for t sp
    using that brace_span_indices [of t sp] by (simp add: parse_response_def Let_def)
  have \<open>brace_span
      ''Here is the result: {"is_healthy": true, "results": [], "confidence": "95%"} Thanks!''
      ''{"is_healthy": true, "results": [], "confidence": "95%"}''\<close>
    unfolding brace_span_def
    by (intro exI [of _ "''Here is the result: ''"]
        exI [of _ \<open>''"is_healthy": true, "results": [], "confidence": "95%"''\<close>]
        exI [of _ "'' Thanks!''"]) simp
  then have \<open>json_loads ''{"is_healthy": true, "results": [], "confidence": "95%"}'' = Inr v \<Longrightarrow>
      parse_response json_loads
        ''Here is the result: {"is_healthy": true, "results": [], "confidence": "95%"} Thanks!''
      = Inr v\<close>
    by (rule general)
  moreover have "brace_span text span \<and> json_loads span = Inr v \<Longrightarrow> parse_response json_loads text = Inr v"
    using general by blast
  ultimately show ?thesis by (intro conjI impI)
qed

theorem parse_response_success_witness:
  \<open>parse_response example_loads
     ''Here is the result: {"is_healthy": true, "results": [], "confidence": "95%"} Thanks!''
   = Inr (JObject [(''is_healthy'', JBool True), (''results'', JArray []),
                   (''confidence'', JString ''95%'')]) \<and>
   parse_response example_loads
     ''```json {"is_healthy": true, "results": [], "confidence": "95%"} ```''
   = Inr (JObject [(''is_healthy'', JBool True), (''results'', JArray []),
                   (''confidence'', JString ''95%'')])\<close>
proof -
  let ?v = "JObject [(''is_healthy'', JBool True), (''results'', JArray []),
                     (''confidence'', JString ''95%'')]"
  have l: \<open>example_loads ''{"is_healthy": true, "results": [], "confidence": "95%"}'' = Inr ?v\<close>
    by (simp add: example_loads_def)
  have b: \<open>brace_span ''```json {"is_healthy": true, "results": [], "confidence": "95%"} ```''
      ''{"is_healthy": true, "results": [], "confidence": "95%"}''\<close>
    unfolding brace_span_def
    by (intro exI [of _ "''```json ''"]
        exI [of _ \<open>''"is_healthy": true, "results": [], "confidence": "95%"''\<close>]
        exI [of _ "'' ```''"]) simp
  note specific = parse_response_success [THEN conjunct2, rule_format]
  note general = parse_response_success [THEN conjunct1, rule_format]
  have \<open>parse_response example_loads
     ''Here is the result: {"is_healthy": true, "results": [], "confidence": "95%"} Thanks!''
     = Inr ?v\<close>
    by (rule specific) (rule l)
  moreover have \<open>parse_response example_loads
     ''```json {"is_healthy": true, "results": [], "confidence": "95%"} ```'' = Inr ?v\<close>
    by (rule general) (rule conjI [OF b l])
  ultimately show ?thesis by simp
qed

section \<open>Recommendation selector: content of the result\<close>

text \<open>
  C6.  For every recommendation text, in particular one that mentions a known active
  ingredient such as \<open>apply copper spray\<close>, and every disease-name text that mentions
  \<open>bacterial spot\<close> in any letter case, \<open>curated_products\<close> on the program's catalog returns a
  non-empty list whose first entry has the active \<open>copper\<close>, whatever the order in which the
  keyword set is visited.
\<close>

theorem curated_products_bacterial_spot:
  assumes "sublist ''bacterial spot'' (lower disease_name)"
  shows "curated_products CATALOG ks recommendation disease_name \<noteq> [] \<and>
         active (hd (curated_products CATALOG ks recommendation disease_name)) = ''copper''"
proof -
  let ?res = "curated_products CATALOG ks recommendation disease_name"
  have "sublist ''bacteria'' ''bacterial spot''"
    by (simp add: str_in_sublist [symmetric])
  then have "sublist ''bacteria'' (lower disease_name)"
    using assms by (rule sublist_order.order_trans)
  then have cat: "detect_category disease_name recommendation = ''bacterial''"
    by (rule detect_category_bacterial) simp
  have "min 2 (length (catalog_get CATALOG ''bacterial'')) \<le> length ?res"
    using curated_products_length_lower [OF CATALOG_distinct, of disease_name recommendation ks] cat
    by simp
  moreover have "length (catalog_get CATALOG ''bacterial'') = 1"
    using CATALOG_bacterial by (metis length_map length_Cons list.size(3) One_nat_def)
  ultimately have ne: "?res \<noteq> []" by auto
  then have "hd ?res \<in> set ?res" by simp
  then have "hd ?res \<in> set (catalog_get CATALOG ''bacterial'')"
    using curated_products_subset [of CATALOG ks recommendation disease_name] cat by auto
  then have "active (hd ?res) \<in> set (map active (catalog_get CATALOG ''bacterial''))"
    by simp
  then have "active (hd ?res) = ''copper''" by (simp only: CATALOG_bacterial) simp
  with ne show ?thesis by simp
qed

theorem curated_products_bacterial_spot_witness:
  "sublist ''bacterial spot'' (lower ''Bacterial Spot of tomato'') \<and>
   curated_products CATALOG (catalog_actives CATALOG) ''apply copper spray'' ''Bacterial Spot of tomato'' \<noteq> [] \<and>
   active (hd (curated_products CATALOG (catalog_actives CATALOG) ''apply copper spray''
     ''Bacterial Spot of tomato'')) = ''copper''"
proof -
  have "lower ''Bacterial Spot of tomato'' = ''bacterial spot of tomato''"
    by (simp add: lower_eval)
  then have h: "sublist ''bacterial spot'' (lower ''Bacterial Spot of tomato'')"
    by (simp add: str_in_sublist [symmetric])
  show ?thesis
    using h curated_products_bacterial_spot [OF h, of "catalog_actives CATALOG" "''apply copper spray''"]
    by simp
qed

text \<open>
  C10.  For every catalog, recommendation text and disease-name text, every entry that
  \<open>curated_products\<close> returns is an element of the catalog list of the one category
  \<open>detect_category disease_name recommendation\<close>, so the result never mixes categories, and the
  result is empty when that category has no entries.
\<close>

theorem curated_products_single_category:
  "set (curated_products cat ks recommendation disease_name)
     \<subseteq> set (catalog_get cat (detect_category disease_name recommendation)) \<and>
   (catalog_get cat (detect_category disease_name recommendation) = [] \<longrightarrow>
      curated_products cat ks recommendation disease_name = [])"
  using curated_products_subset [of cat ks recommendation disease_name] by auto

theorem curated_products_single_category_witness:
  "catalog_get (take 2 CATALOG) (detect_category ''aphids'' ''use pyrethrin'') = [] \<and>
   curated_products (take 2 CATALOG) (catalog_actives CATALOG) ''use pyrethrin'' ''aphids'' = [] \<and>
   set (curated_products CATALOG (catalog_actives CATALOG) ''use pyrethrin'' ''aphids'')
     \<subseteq> set (catalog_get CATALOG ''insect'')"
proof -
  have "lower ''aphids'' = ''aphids''" and "lower ''use pyrethrin'' = ''use pyrethrin''"
    by (simp_all add: lower_eval)
  then have c: "detect_category ''aphids'' ''use pyrethrin'' = ''insect''"
    by (simp add: detect_category_def)
  have e: "catalog_get (take 2 CATALOG) (detect_category ''aphids'' ''use pyrethrin'') = []"
    by (simp add: c catalog_get_def CATALOG_def)
  show ?thesis
    using e c
      curated_products_single_category [of "take 2 CATALOG" "catalog_actives CATALOG" "''use pyrethrin''" "''aphids''"]
      curated_products_single_category [of CATALOG "catalog_actives CATALOG" "''use pyrethrin''" "''aphids''"]
    by simp
qed

section \<open>Active-ingredient extractor: empty input and repeated calls\<close>

text \<open>
  C8.  \<open>extract_actives\<close> on the empty string returns the empty list, and it returns a value
  on every input (no branch of it raises).  Two calls on the same text give the same ordered
  list: each call starts from its own empty \<open>found\<close> and \<open>seen\<close>, and the keyword set is
  visited in the same order \<open>ks\<close> by both.
\<close>

theorem extract_actives_empty_and_repeatable:
  assumes "keyword_order CATALOG ks"
  shows "extract_actives ks [] = [] \<and>
         (let first_call = extract_actives ks text; second_call = extract_actives ks text
          in second_call = first_call)"
proof -
  have "[] \<notin> set ks"
    using assms CATALOG_actives_nonempty by (simp add: keyword_order_def ACTIVE_KEYWORDS_def)
  then have "extract_loop [] ks ([], {}) = ([], {})" by (rule extract_loop_empty_text)
  then show ?thesis by (simp add: extract_actives_def lower.simps)
qed

theorem extract_actives_empty_and_repeatable_witness:
  "keyword_order CATALOG (catalog_actives CATALOG) \<and>
   extract_actives (catalog_actives CATALOG) [] = []"
proof -
  have k: "keyword_order CATALOG (catalog_actives CATALOG)"
    using CATALOG_actives_distinct by (simp add: keyword_order_def ACTIVE_KEYWORDS_def)
  show ?thesis
    using k extract_actives_empty_and_repeatable [OF k, of "''copper''"] by simp
qed

section \<open>Summary synthesizer: the three branches\<close>

text \<open>
  C7 (as amended).  For every analysis and plant name the summary text follows three
  branches in order.  If \<open>is_healthy\<close> is true, it is the fixed reassurance sentence, which
  contains the plant name.  Else, if \<open>results\<close> is a non-empty list, it is
  \<open>Detected issues: \<close> followed by one sentence per finding, in order and separated by one
  space, each combining name, symptoms, treatment and prevention; a missing symptoms,
  treatment or prevention field is rendered as the empty string, and a missing name as
  \<open>Unknown\<close>.  Else it is the fixed sentence \<open>Analysis inconclusive.\<close>
\<close>

theorem summary_text_branches:
  "(is_healthy a = Some True \<longrightarrow>
      summary_text a plant_name =
        ''Your '' @ plant_name @ '' plant appears healthy. Keep doing what you are doing.'' \<and>
      sublist plant_name (summary_text a plant_name)) \<and>
   (is_healthy a \<noteq> Some True \<and> results a = Some rs \<and> rs \<noteq> [] \<longrightarrow>
      summary_text a plant_name =
        ''Detected issues: '' @
        join '' '' (map (\<lambda>r.
          (case r ''name'' of None \<Rightarrow> ''Unknown'' | Some v \<Rightarrow> v) @ ''. Symptoms: '' @
          (case r ''symptoms'' of None \<Rightarrow> [] | Some v \<Rightarrow> v) @ ''. Treatment: '' @
          (case r ''treatment'' of None \<Rightarrow> [] | Some v \<Rightarrow> v) @ ''. Prevention: '' @
          (case r ''prevention'' of None \<Rightarrow> [] | Some v \<Rightarrow> v) @ ''.'') rs)) \<and>
   (is_healthy a \<noteq> Some True \<and> (results a = None \<or> results a = Some []) \<longrightarrow>
      summary_text a plant_name = ''Analysis inconclusive.'')"
proof (intro conjI impI)
  assume h: "is_healthy a = Some True"
  then show "summary_text a plant_name =
      ''Your '' @ plant_name @ '' plant appears healthy. Keep doing what you are doing.''"
    by (simp add: summary_text_def)
  then show "sublist plant_name (summary_text a plant_name)"
    by (simp only: sublist_appendI)
next
  assume h: "is_healthy a \<noteq> Some True \<and> results a = Some rs \<and> rs \<noteq> []"
  then obtain r rest where rs: "rs = r # rest" by (cases rs) auto
  have "finding_sentence = (\<lambda>r.
          (case r ''name'' of None \<Rightarrow> ''Unknown'' | Some v \<Rightarrow> v) @ ''. Symptoms: '' @
          (case r ''symptoms'' of None \<Rightarrow> [] | Some v \<Rightarrow> v) @ ''. Treatment: '' @
          (case r ''treatment'' of None \<Rightarrow> [] | Some v \<Rightarrow> v) @ ''. Prevention: '' @
          (case r ''prevention'' of None \<Rightarrow> [] | Some v \<Rightarrow> v) @ ''.'')"
    by (rule ext) (simp add: finding_sentence_def dict_get_def)
  then show "summary_text a plant_name =
        ''Detected issues: '' @
        join '' '' (map (\<lambda>r.
          (case r ''name'' of None \<Rightarrow> ''Unknown'' | Some v \<Rightarrow> v) @ ''. Symptoms: '' @
          (case r ''symptoms'' of None \<Rightarrow> [] | Some v \<Rightarrow> v) @ ''. Treatment: '' @
          (case r ''treatment'' of None \<Rightarrow> [] | Some v \<Rightarrow> v) @ ''. Prevention: '' @
          (case r ''prevention'' of None \<Rightarrow> [] | Some v \<Rightarrow> v) @ ''.'') rs)"
    using h rs by (simp add: summary_text_def)
next
  assume "is_healthy a \<noteq> Some True \<and> (results a = None \<or> results a = Some [])"
  then show "summary_text a plant_name = ''Analysis inconclusive.''"
    by (auto simp add: summary_text_def)
qed

theorem summary_text_branches_witness:
  "sublist ''basil'' (summary_text \<lparr>is_healthy = Some True, results = Some []\<rparr> ''basil'') \<and>
   summary_text \<lparr>is_healthy = Some False,
       results = Some [[''name'' \<mapsto> ''Rust'', ''treatment'' \<mapsto> ''sulfur''], Map.empty]\<rparr> ''basil'' =
     ''Detected issues: Rust. Symptoms: . Treatment: sulfur. Prevention: . Unknown. Symptoms: . Treatment: . Prevention: .'' \<and>
   summary_text \<lparr>is_healthy = None, results = Some []\<rparr> ''basil'' = ''Analysis inconclusive.''"
proof -
  note healthy = summary_text_branches [THEN conjunct1, rule_format, THEN conjunct2]
  note findings = summary_text_branches [THEN conjunct2, THEN conjunct1, rule_format]
  note neither = summary_text_branches [THEN conjunct2, THEN conjunct2, rule_format]
  have "sublist ''basil'' (summary_text \<lparr>is_healthy = Some True, results = Some []\<rparr> ''basil'')"
    by (rule healthy) simp
  moreover have "summary_text \<lparr>is_healthy = Some False,
       results = Some [[''name'' \<mapsto> ''Rust'', ''treatment'' \<mapsto> ''sulfur''], Map.empty]\<rparr> ''basil'' =
     ''Detected issues: Rust. Symptoms: . Treatment: sulfur. Prevention: . Unknown. Symptoms: . Treatment: . Prevention: .''"
    using findings [of "\<lparr>is_healthy = Some False,
       results = Some [[''name'' \<mapsto> ''Rust'', ''treatment'' \<mapsto> ''sulfur''], Map.empty]\<rparr>"
       "[[''name'' \<mapsto> ''Rust'', ''treatment'' \<mapsto> ''sulfur''], Map.empty]" "''basil''"]
    by simp
  moreover have "summary_text \<lparr>is_healthy = None, results = Some []\<rparr> ''basil'' = ''Analysis inconclusive.''"
    by (rule neither) simp
  ultimately show ?thesis by simp
qed

text \<open>
  The claim as the specification states it renders every missing field as the empty string.
  A finding without a name is spoken as \<open>Unknown\<close>.
\<close>

theorem summary_text_missing_name_counterexample:
  "summary_text \<lparr>is_healthy = Some False, results = Some [Map.empty]\<rparr> ''basil'' =
     ''Detected issues: Unknown. Symptoms: . Treatment: . Prevention: .'' \<and>
   ''Detected issues: '' @ join '' '' (map finding_sentence_spec [Map.empty]) =
     ''Detected issues: . Symptoms: . Treatment: . Prevention: .''"
  by (simp add: summary_text_def finding_sentence_def finding_sentence_spec_def dict_get_def)

section \<open>Image normalisation: fallback on failure\<close>



end
